theory Spec2Isabelle
  imports Main
begin

section \<open>Python string primitives used by txttoexel.py\<close>

text \<open>
  A Python \<open>str\<close> is modelled as a \<open>string\<close>, one \<open>char\<close> per code point. The model
  covers text whose code points are below 256 (ASCII and Latin-1); on that range the
  two character tables below are Python's \<open>str.isspace\<close> and \<open>str.lower\<close>.
\<close>

datatype error = IndexError

type_synonym row = "string \<times> string \<times> string \<times> string"

definition isspace :: "char \<Rightarrow> bool" where
  \<comment> \<open>\<open>str.isspace\<close> on one character, which is also what \<open>\s\<close> matches in a \<open>str\<close> pattern:
      TAB, LF, VT, FF, CR, the separators 0x1C..0x1F, SPACE, NEL and NBSP.\<close>
  "isspace c = (let n = (of_char c :: nat) in
     (9 \<le> n \<and> n \<le> 13) \<or> (28 \<le> n \<and> n \<le> 32) \<or> n = 133 \<or> n = 160)"

definition lower_char :: "char \<Rightarrow> char" where
  \<comment> \<open>\<open>str.lower\<close> on one character: A..Z and the Latin-1 capitals 0xC0..0xDE
      (without the multiplication sign 0xD7) move up by 32.\<close>
  "lower_char c = (let n = (of_char c :: nat) in
     if (65 \<le> n \<and> n \<le> 90) \<or> (192 \<le> n \<and> n \<le> 222 \<and> n \<noteq> 215)
     then char_of (n + 32) else c)"

definition lower :: "string \<Rightarrow> string" where
  "lower s = map lower_char s"

definition lstrip :: "string \<Rightarrow> string" where
  "lstrip s = dropWhile isspace s"

definition rstrip :: "string \<Rightarrow> string" where
  "rstrip s = rev (dropWhile isspace (rev s))"

definition strip :: "string \<Rightarrow> string" where
  \<comment> \<open>\<open>s.strip()\<close>\<close>
  "strip s = rstrip (lstrip s)"

definition rstrip_chars :: "string \<Rightarrow> string \<Rightarrow> string" where
  \<comment> \<open>\<open>s.rstrip(chars)\<close>: drops every trailing character that occurs in \<open>chars\<close>.\<close>
  "rstrip_chars chars s = rev (dropWhile (\<lambda>c. c \<in> set chars) (rev s))"

fun split_sep :: "char \<Rightarrow> string \<Rightarrow> string list" where
  \<comment> \<open>\<open>s.split(sep)\<close> for a one-character separator: one more piece than separators,
      empty pieces kept, \<open>''.split(sep) == ['']\<close>.\<close>
  "split_sep sep [] = [[]]"
| "split_sep sep (c # cs) =
     (if c = sep then [] # split_sep sep cs
      else (let r = split_sep sep cs in (c # hd r) # tl r))"

fun re_sub_ws :: "string \<Rightarrow> nat \<Rightarrow> string \<Rightarrow> string" where
  \<comment> \<open>\<open>re.sub(r"\s+", repl, s, count=n)\<close> for \<open>n > 0\<close>: the leftmost \<open>n\<close> maximal runs of
      whitespace are each replaced by \<open>repl\<close>; the first argument counts the
      replacements still allowed.\<close>
  "re_sub_ws repl 0 s = s"
| "re_sub_ws repl (Suc n) [] = []"
| "re_sub_ws repl (Suc n) (c # cs) =
     (if isspace c then repl @ re_sub_ws repl n (dropWhile isspace cs)
      else c # re_sub_ws repl (Suc n) cs)"

definition digit_or_hyphen :: "char \<Rightarrow> bool" where
  \<comment> \<open>the character class \<open>[0-9\-]\<close>\<close>
  "digit_or_hyphen c = ((48 \<le> (of_char c :: nat) \<and> (of_char c :: nat) \<le> 57) \<or> c = CHR ''-'')"

definition fullmatch_digits_hyphens :: "string \<Rightarrow> bool" where
  \<comment> \<open>\<open>re.fullmatch(r"[0-9\-]+", value)\<close> is not None\<close>
  "fullmatch_digits_hyphens value = (value \<noteq> [] \<and> list_all digit_or_hyphen value)"

definition py_get :: "'a list \<Rightarrow> int \<Rightarrow> error + 'a" where
  \<comment> \<open>The subscript \<open>xs[i]\<close> of a Python list, where \<open>-1\<close> is the last element and a
      position outside the list is an IndexError.\<close>
  "py_get xs i =
     (if 0 \<le> i \<and> i < int (length xs) then Inr (xs ! nat i)
      else if i < 0 \<and> - int (length xs) \<le> i then Inr (xs ! nat (int (length xs) + i))
      else Inl IndexError)"

section \<open>User settings\<close>

definition COL_SEP :: char where "COL_SEP = CHR '':''"
definition PHONE_COL :: nat where "PHONE_COL = 0"
definition FIRST_COL :: nat where "FIRST_COL = 2"
definition LAST_COL :: nat where "LAST_COL = 3"
definition CITY_COL :: nat where "CITY_COL = 5"
definition CHUNK_LIMIT :: nat where "CHUNK_LIMIT = 1000000"

definition HEADER :: "string list" where
  "HEADER = [''Phone'', ''FirstName'', ''LastName'', ''City'']"

definition max_col :: nat where
  \<comment> \<open>\<open>max(PHONE_COL, FIRST_COL, LAST_COL, CITY_COL)\<close>\<close>
  "max_col = max (max (max PHONE_COL FIRST_COL) LAST_COL) CITY_COL"

section \<open>parse_rows\<close>

definition skip_tokens :: "string list" where
  "skip_tokens = [''male'', ''female'', ''single'', ''married'', ''widowed'',
     ''divorced'', ''engaged'', ''in a relationship'', ''it's complicated'']"

definition split_with_repair :: "string \<Rightarrow> bool \<times> string list" where
  \<comment> \<open>Lines 53 to 60. The second component is \<open>parts\<close> after the \<open>if\<close>; the first
      records whether the body of the \<open>if\<close> (the repair) ran.\<close>
  "split_with_repair line =
     (let parts = split_sep COL_SEP line in
      if length parts \<le> max_col
      then (let fixed_line = re_sub_ws [COL_SEP] 2 line in (True, split_sep COL_SEP fixed_line))
      else (False, parts))"

fun scan_location :: "string list \<Rightarrow> string" where
  \<comment> \<open>The loop of lines 72 to 93 over \<open>parts[5:]\<close>; the result is \<open>location_raw\<close>.\<close>
  "scan_location [] = []"
| "scan_location (token # rest) =
     (let value = strip token in
      if value = [] then scan_location rest
      else if lower value \<in> set skip_tokens then scan_location rest
      else if CHR ''/'' \<in> set value then scan_location rest
      else if fullmatch_digits_hyphens value then scan_location rest
      else value)"

definition format_city :: "string \<Rightarrow> error + string" where
  \<comment> \<open>Lines 96 to 105; the result is \<open>city_field\<close>.\<close>
  "format_city location_raw =
     (if location_raw \<noteq> [] then
        (if CHR '','' \<in> set location_raw then
           (let segments = map strip (filter (\<lambda>seg. strip seg \<noteq> [])
                                         (split_sep (CHR '','') location_raw)) in
            if segments \<noteq> [] then
              (case py_get segments 0 of Inl e \<Rightarrow> Inl e | Inr city_segment \<Rightarrow>
               case py_get segments (- 1) of Inl e \<Rightarrow> Inl e | Inr country_segment \<Rightarrow>
               Inr (country_segment @ '': '' @ city_segment))
            else Inr [])
         else Inr location_raw)
      else Inr [])"

definition parse_line :: "string \<Rightarrow> error + row option" where
  \<comment> \<open>One iteration of the \<open>for raw_line in fp\<close> loop: \<open>Inr (Some row)\<close> is a yield,
      \<open>Inr None\<close> the silent skip, \<open>Inl e\<close> a raised exception.\<close>
  "parse_line raw_line =
     (let line = rstrip_chars [CHR 0x0A] raw_line;
          parts = snd (split_with_repair line) in
      if length parts > max_col then
        (let location_raw = scan_location (drop 5 parts) in
         case format_city location_raw of Inl e \<Rightarrow> Inl e | Inr city_field \<Rightarrow>
         case py_get parts (int PHONE_COL) of Inl e \<Rightarrow> Inl e | Inr phone_raw \<Rightarrow>
         case py_get parts (int FIRST_COL) of Inl e \<Rightarrow> Inl e | Inr first_raw \<Rightarrow>
         case py_get parts (int LAST_COL) of Inl e \<Rightarrow> Inl e | Inr last_raw \<Rightarrow>
         Inr (Some (strip phone_raw, strip first_raw, strip last_raw, city_field)))
      else Inr None)"

fun parse_rows :: "string list \<Rightarrow> row list \<times> error option" where
  \<comment> \<open>The generator run to its end over the lines of \<open>fp\<close>: the rows it yields, in
      order, and the exception that ended it, if one did.\<close>
  "parse_rows [] = ([], None)"
| "parse_rows (raw_line # fp) =
     (case parse_line raw_line of
        Inl e \<Rightarrow> ([], Some e)
      | Inr None \<Rightarrow> parse_rows fp
      | Inr (Some r) \<Rightarrow> (let (rows, err) = parse_rows fp in (r # rows, err)))"

section \<open>write_chunk and process_txt\<close>

record driver_state =
  part_no :: nat
  buffer :: "row list"
  written :: "(nat \<times> row list) list"

text \<open>
  \<open>written\<close> is the effect of \<open>write_chunk\<close> on the file system: one entry per workbook
  written, in the order of the calls, holding the part number that names the file and
  the rows handed over. A failing write belongs to the environment and is not modelled.
\<close>

definition write_chunk :: "row list \<Rightarrow> nat \<Rightarrow> driver_state \<Rightarrow> driver_state" where
  "write_chunk rows part st = st\<lparr>written := written st @ [(part, rows)]\<rparr>"

definition initial_state :: driver_state where
  "initial_state = \<lparr>part_no = 1, buffer = [], written = []\<rparr>"

definition driver_step :: "row \<Rightarrow> driver_state \<Rightarrow> driver_state" where
  \<comment> \<open>The body of the loop of lines 131 to 136 for one row.\<close>
  "driver_step r st =
     (let st1 = st\<lparr>buffer := buffer st @ [r]\<rparr> in
      if length (buffer st1) = CHUNK_LIMIT then
        (let st2 = write_chunk (buffer st1) (part_no st1) st1;
             st3 = st2\<lparr>part_no := part_no st2 + 1\<rparr>
         in st3\<lparr>buffer := []\<rparr>)
      else st1)"

fun driver_loop :: "row list \<Rightarrow> driver_state \<Rightarrow> driver_state" where
  "driver_loop [] st = st"
| "driver_loop (r # rows) st = driver_loop rows (driver_step r st)"

definition flush_remainder :: "driver_state \<Rightarrow> driver_state" where
  \<comment> \<open>Lines 139 and 140.\<close>
  "flush_remainder st =
     (if buffer st \<noteq> [] then write_chunk (buffer st) (part_no st) st else st)"

definition process_rows :: "row list \<Rightarrow> driver_state" where
  \<comment> \<open>\<open>process_txt\<close> from the rows of a generator that ends without an exception.\<close>
  "process_rows rows = flush_remainder (driver_loop rows initial_state)"

definition process_txt :: "string list \<Rightarrow> driver_state \<times> error option" where
  \<comment> \<open>\<open>process_txt\<close> on the lines of the opened file. An exception out of the generator
      leaves the loop at once, without the final flush.\<close>
  "process_txt fp =
     (let (rows, err) = parse_rows fp in
      case err of
        Some e \<Rightarrow> (driver_loop rows initial_state, Some e)
      | None \<Rightarrow> (process_rows rows, None))"

section \<open>The main block\<close>

text \<open>
  The file system and \<open>pathlib\<close> are parameters: \<open>'p\<close> is the type of paths, \<open>cwd_glob_txt\<close>
  the result of \<open>list(Path.cwd().glob("*.txt"))\<close>, \<open>open_lines\<close> the lines read from a file.
\<close>

record 'p environment =
  argv :: "string list"
  cwd_glob_txt :: "'p list"
  Path :: "string \<Rightarrow> 'p"
  path_name :: "'p \<Rightarrow> string"
  path_str :: "'p \<Rightarrow> string"
  is_file :: "'p \<Rightarrow> bool"
  open_lines :: "'p \<Rightarrow> string list"

record outcome =
  stdout :: "string list"
  stderr :: "string list"
  exit_status :: nat
  workbooks :: "(nat \<times> row list) list"

text \<open>
  \<open>stdout\<close> holds the lines printed by the main block itself (the progress line of
  \<open>write_chunk\<close> is left out). \<open>sys.exit(1)\<close>, \<open>sys.exit\<close> with a message and an uncaught
  exception all end the process with status 1; running off the end of the script is
  status 0.
\<close>

definition determine_input :: "'p environment \<Rightarrow> string list \<times> (nat + 'p)" where
  \<comment> \<open>Lines 147 to 158: what is printed, and either the exit status or \<open>input_path\<close>.\<close>
  "determine_input env =
     (if length (argv env) = 2 then
        (case py_get (argv env) 1 of
           Inl e \<Rightarrow> ([], Inl 1)
         | Inr a \<Rightarrow> ([], Inr (Path env a)))
      else
        (let txt_files = cwd_glob_txt env in
         if length txt_files = 1 then
           (case py_get txt_files 0 of
              Inl e \<Rightarrow> ([], Inl 1)
            | Inr input_path \<Rightarrow>
                ([''No path arg given -> using '' @ [CHR 0x27] @ path_name env input_path
                    @ [CHR 0x27] @ '' in current directory.''],
                 Inr input_path))
         else
           ([''Usage: python txttoexel.py path/to/input.txt'',
             ''Or place exactly one .txt file in the current folder and run without arguments.''],
            Inl 1)))"

definition main :: "'p environment \<Rightarrow> outcome" where
  "main env =
     (let (out, r) = determine_input env in
      case r of
        Inl status \<Rightarrow> \<lparr>stdout = out, stderr = [], exit_status = status, workbooks = []\<rparr>
      | Inr input_path \<Rightarrow>
          if \<not> is_file env input_path then
            \<lparr>stdout = out, stderr = [''File not found: '' @ path_str env input_path],
             exit_status = 1, workbooks = []\<rparr>
          else
            (let (st, err) = process_txt (open_lines env input_path) in
             \<lparr>stdout = out, stderr = [],
              exit_status = (case err of None \<Rightarrow> 0 | Some e \<Rightarrow> 1),
              workbooks = written st\<rparr>))"

section \<open>Notions used to state the properties\<close>

definition field_vector :: "string \<Rightarrow> string list" where
  \<comment> \<open>\<open>parts\<close> as it stands at line 63, for the raw line read from the file.\<close>
  "field_vector raw_line = snd (split_with_repair (rstrip_chars [CHR 0x0A] raw_line))"

definition insufficient :: "string \<Rightarrow> bool" where
  \<comment> \<open>The test of line 63 fails: also after the repair, too few fields.\<close>
  "insufficient raw_line = (length (field_vector raw_line) \<le> max_col)"

definition location_candidate :: "string \<Rightarrow> string" where
  \<comment> \<open>\<open>location_raw\<close> after the loop of lines 78 to 93.\<close>
  "location_candidate raw_line = scan_location (drop 5 (field_vector raw_line))"

definition city_of :: "string \<Rightarrow> string" where
  \<comment> \<open>\<open>city_field\<close> for a given \<open>location_raw\<close>, when lines 96 to 105 raise nothing.\<close>
  "city_of c = (case format_city c of Inr city \<Rightarrow> city | Inl e \<Rightarrow> [])"

definition comma_segments :: "string \<Rightarrow> string list" where
  \<comment> \<open>The specification's wording: split on commas, trim, keep the non-empty pieces.\<close>
  "comma_segments s = filter (\<lambda>seg. seg \<noteq> []) (map strip (split_sep (CHR '','') s))"

definition qualifies :: "string \<Rightarrow> bool" where
  \<comment> \<open>The specification's wording of the four exclusions, on a trimmed field: not
      blank, no case-insensitive match with a known token, no slash, not made of
      digits and hyphens only.\<close>
  "qualifies v = (v \<noteq> [] \<and> \<not> (\<exists>t \<in> set skip_tokens. lower v = lower t)
      \<and> CHR ''/'' \<notin> set v \<and> \<not> list_all digit_or_hyphen v)"

fun join_sep :: "char \<Rightarrow> string list \<Rightarrow> string" where
  \<comment> \<open>\<open>sep.join(parts)\<close>, to say that a split line is the line itself.\<close>
  "join_sep sep [] = []"
| "join_sep sep [p] = p"
| "join_sep sep (p # q # ps) = p @ sep # join_sep sep (q # ps)"

definition chunks_from :: "nat \<Rightarrow> row list \<Rightarrow> (nat \<times> row list) list" where
  \<comment> \<open>The specification's batching: \<open>ceil(Q / L)\<close> workbooks numbered from \<open>p\<close>, each
      holding the next \<open>L\<close> rows, the last one what is left.\<close>
  "chunks_from p xs =
     map (\<lambda>i. (p + i, take CHUNK_LIMIT (drop (i * CHUNK_LIMIT) xs)))
         [0..<(length xs + CHUNK_LIMIT - 1) div CHUNK_LIMIT]"

definition driver_inv :: "driver_state \<Rightarrow> bool" where
  \<comment> \<open>The state between two iterations of the loop of \<open>process_txt\<close>.\<close>
  "driver_inv st =
     (length (buffer st) < CHUNK_LIMIT
      \<and> map fst (written st) = [1..<part_no st]
      \<and> 1 \<le> part_no st
      \<and> (\<forall>rs \<in> set (map snd (written st)). length rs = CHUNK_LIMIT))"

definition usage_lines :: "string list" where
  "usage_lines =
     [''Usage: python txttoexel.py path/to/input.txt'',
      ''Or place exactly one .txt file in the current folder and run without arguments.'']"

definition chosen_line :: "string \<Rightarrow> string" where
  "chosen_line name =
     ''No path arg given -> using '' @ [CHR 0x27] @ name @ [CHR 0x27] @ '' in current directory.''"

section \<open>Strings, indexing and the field vector\<close>

lemma py_get_first: "xs \<noteq> [] \<Longrightarrow> py_get xs 0 = Inr (hd xs)"
  by (cases xs) (simp_all add: py_get_def)

lemma py_get_last: "xs \<noteq> [] \<Longrightarrow> py_get xs (- 1) = Inr (last xs)"
  by (cases xs) (simp_all add: py_get_def last_conv_nth nat_diff_distrib' del: last.simps)

lemma segments_eq:
  "map strip (filter (\<lambda>seg. strip seg \<noteq> []) xs) = filter (\<lambda>seg. seg \<noteq> []) (map strip xs)"
  by (induction xs) simp_all

lemma format_city_eq:
  "format_city c =
     Inr (if c = [] then []
          else if CHR '','' \<in> set c then
            (if comma_segments c = [] then []
             else last (comma_segments c) @ '': '' @ hd (comma_segments c))
          else c)"
  by (simp add: format_city_def comma_segments_def segments_eq py_get_first py_get_last Let_def)

lemma split_sep_nonempty: "split_sep sep s \<noteq> []"
  by (induction s) (simp_all add: Let_def)

lemma max_col_5: "max_col = 5"
  by (simp add: max_col_def PHONE_COL_def FIRST_COL_def LAST_COL_def CITY_COL_def)

lemma parse_line_sufficient:
  assumes "max_col < length (field_vector raw_line)"
  shows "parse_line raw_line =
     Inr (Some (strip (field_vector raw_line ! 0), strip (field_vector raw_line ! 2),
                strip (field_vector raw_line ! 3), city_of (location_candidate raw_line)))"
proof -
  let ?parts = "field_vector raw_line"
  from assms have len: "5 < length ?parts" by (simp add: max_col_5)
  have g0: "py_get ?parts (int PHONE_COL) = Inr (?parts ! 0)"
    using len by (auto simp: PHONE_COL_def py_get_def)
  have g2: "py_get ?parts (int FIRST_COL) = Inr (?parts ! 2)"
    using len by (simp add: FIRST_COL_def py_get_def)
  have g3: "py_get ?parts (int LAST_COL) = Inr (?parts ! 3)"
    using len by (simp add: LAST_COL_def py_get_def)
  have fc: "format_city (location_candidate raw_line) = Inr (city_of (location_candidate raw_line))"
    by (simp add: city_of_def format_city_eq)
  show ?thesis
    using assms g0 g2 g3 fc
    by (simp add: parse_line_def Let_def field_vector_def [symmetric] location_candidate_def [symmetric])
qed

lemma parse_line_insufficient:
  "length (field_vector raw_line) \<le> max_col \<Longrightarrow> parse_line raw_line = Inr None"
  by (simp add: parse_line_def Let_def field_vector_def)


lemma lower_skip_tokens: "t \<in> set skip_tokens \<Longrightarrow> lower t = t"
  unfolding skip_tokens_def by (auto simp: lower_def lower_char_def)

lemma in_skip_tokens_iff: "(\<exists>t \<in> set skip_tokens. lower v = lower t) = (lower v \<in> set skip_tokens)"
  using lower_skip_tokens by force

lemma scan_location_find:
  "scan_location toks = (case find qualifies (map strip toks) of None \<Rightarrow> [] | Some v \<Rightarrow> v)"
  by (induction toks)
     (simp_all add: Let_def qualifies_def in_skip_tokens_iff fullmatch_digits_hyphens_def)

lemma scan_location_single:
  "lower (strip f) = ''single'' \<Longrightarrow> scan_location (f # rest) = scan_location rest"
  by (simp add: Let_def skip_tokens_def)

lemma join_split: "join_sep sep (split_sep sep s) = s"
proof (induction s)
  case Nil
  show ?case by simp
next
  case (Cons c s)
  obtain p ps where r: "split_sep sep s = p # ps"
    using split_sep_nonempty [of sep s] by (cases "split_sep sep s") auto
  with Cons show ?case by (cases ps) (auto simp: Let_def)
qed

lemma length_split_sep: "length (split_sep sep s) = Suc (count_list s sep)"
proof (induction s)
  case Nil
  show ?case by simp
next
  case (Cons c s)
  have "split_sep sep s \<noteq> []" by (rule split_sep_nonempty)
  with Cons show ?case by (simp add: Let_def)
qed

lemma count_dropWhile_other:
  "\<not> P sep \<Longrightarrow> count_list (dropWhile P s) sep = count_list s sep"
  by (induction s) auto

lemma count_re_sub_ws:
  "\<not> isspace sep \<Longrightarrow> count_list (re_sub_ws [sep] n s) sep \<le> count_list s sep + n"
proof (induction "[sep]" n s rule: re_sub_ws.induct)
  case (1 s)
  show ?case by simp
next
  case (2 n)
  show ?case by simp
next
  case (3 n c cs)
  show ?case
  proof (cases "isspace c")
    case True
    with 3 have "count_list (re_sub_ws [sep] n (dropWhile isspace cs)) sep
        \<le> count_list (dropWhile isspace cs) sep + n" by simp
    also have "count_list (dropWhile isspace cs) sep = count_list cs sep"
      using 3(3) by (rule count_dropWhile_other)
    finally show ?thesis using True 3(3) by auto
  next
    case False
    with 3 show ?thesis by auto
  qed
qed

lemma COL_SEP_not_space: "\<not> isspace COL_SEP"
  by (simp add: isspace_def COL_SEP_def)

lemma repair_adds_at_most_two:
  "length (split_sep COL_SEP (re_sub_ws [COL_SEP] 2 s)) \<le> length (split_sep COL_SEP s) + 2"
  using count_re_sub_ws [OF COL_SEP_not_space, of 2 s] by (simp add: length_split_sep)

section \<open>Batching\<close>

lemma CHUNK_LIMIT_pos: "0 < CHUNK_LIMIT"
  by (simp add: CHUNK_LIMIT_def)

lemma chunks_from_Nil: "chunks_from p [] = []"
  using CHUNK_LIMIT_pos by (simp add: chunks_from_def)

lemma chunks_from_short:
  assumes "xs \<noteq> []" and "length xs < CHUNK_LIMIT"
  shows "chunks_from p xs = [(p, xs)]"
proof -
  obtain k where k: "length xs = Suc k" using assms(1) by (cases xs) auto
  have "k < CHUNK_LIMIT" using k assms(2) by simp
  then have "(k + CHUNK_LIMIT) div CHUNK_LIMIT = 1"
    using div_add_self2 [of CHUNK_LIMIT k] by simp
  moreover have "length xs + CHUNK_LIMIT - 1 = k + CHUNK_LIMIT" using k by simp
  ultimately have "(length xs + CHUNK_LIMIT - 1) div CHUNK_LIMIT = 1" by simp
  then show ?thesis using assms(2) by (simp add: chunks_from_def)
qed

lemma chunks_from_full:
  assumes "CHUNK_LIMIT \<le> length xs"
  shows "chunks_from p xs = (p, take CHUNK_LIMIT xs) # chunks_from (Suc p) (drop CHUNK_LIMIT xs)"
proof -
  define L where "L = CHUNK_LIMIT"
  define m where "m = length (drop L xs) + L - 1"
  define n where "n = m div L"
  have Lpos: "0 < L" using CHUNK_LIMIT_pos by (simp add: L_def)
  have "L \<le> length xs" using assms by (simp add: L_def)
  then have e: "length xs + L - 1 = m + L"
    using Lpos unfolding m_def length_drop by arith
  have "(m + L) div L = Suc n"
    using Lpos div_add_self2 [of L m] by (simp add: n_def)
  then have cnt: "(length xs + L - 1) div L = Suc n"
    by (simp only: e)
  have upt: "[0..<Suc n] = 0 # map Suc [0..<n]"
    by (simp add: upt_conv_Cons map_Suc_upt del: upt_Suc)
  have step: "\<And>i. drop (Suc i * L) xs = drop (i * L) (drop L xs)"
    by (simp add: add.commute)
  have "map (\<lambda>i. (p + i, take L (drop (i * L) xs))) [0..<Suc n]
      = (p, take L xs) # map (\<lambda>i. (Suc p + i, take L (drop (i * L) (drop L xs)))) [0..<n]"
    unfolding upt by (simp add: o_def step del: mult_Suc)
  then show ?thesis
    unfolding chunks_from_def L_def [symmetric] cnt
    by (simp only: n_def m_def)
qed

lemma take_drop_snoc:
  assumes "length (xs @ [r]) = n"
  shows "take n (xs @ r # rows) = xs @ [r]" and "drop n (xs @ r # rows) = rows"
  using assms by auto

lemma driver_loop_written:
  "length (buffer st) < CHUNK_LIMIT \<Longrightarrow>
   written (flush_remainder (driver_loop rows st))
     = written st @ chunks_from (part_no st) (buffer st @ rows)"
proof (induction rows arbitrary: st)
  case Nil
  show ?case
  proof (cases "buffer st = []")
    case True
    then show ?thesis by (simp add: flush_remainder_def chunks_from_Nil)
  next
    case False
    with Nil show ?thesis
      by (simp add: flush_remainder_def write_chunk_def chunks_from_short)
  qed
next
  case (Cons r rows)
  show ?case
  proof (cases "length (buffer st @ [r]) = CHUNK_LIMIT")
    case True
    let ?st' = "driver_step r st"
    from True have st': "buffer ?st' = []" "part_no ?st' = Suc (part_no st)"
      "written ?st' = written st @ [(part_no st, buffer st @ [r])]"
      by (simp_all add: driver_step_def write_chunk_def Let_def)
    have "length (buffer ?st') < CHUNK_LIMIT"
      using st'(1) CHUNK_LIMIT_pos by simp
    from Cons.IH [OF this]
    have "written (flush_remainder (driver_loop rows ?st'))
            = written st @ (part_no st, buffer st @ [r]) # chunks_from (Suc (part_no st)) rows"
      by (simp add: st')
    moreover have "chunks_from (part_no st) (buffer st @ r # rows)
            = (part_no st, buffer st @ [r]) # chunks_from (Suc (part_no st)) rows"
      using True chunks_from_full [of "buffer st @ r # rows" "part_no st"]
      by (simp only: take_drop_snoc [OF True] length_append list.size)
    ultimately show ?thesis by simp
  next
    case False
    let ?st' = "driver_step r st"
    from False have st': "buffer ?st' = buffer st @ [r]" "part_no ?st' = part_no st"
      "written ?st' = written st"
      by (simp_all add: driver_step_def Let_def)
    have "length (buffer ?st') < CHUNK_LIMIT"
      using st'(1) False Cons.prems by simp
    from Cons.IH [OF this] show ?thesis by (simp add: st')
  qed
qed

lemma process_rows_written: "written (process_rows rows) = chunks_from 1 rows"
  using driver_loop_written [of initial_state rows] CHUNK_LIMIT_pos
  by (simp add: process_rows_def initial_state_def)



section \<open>The generator and the driver, line by line\<close>

lemma parse_line_cases:
  "parse_line raw_line =
     (if insufficient raw_line then Inr None
      else Inr (Some (strip (field_vector raw_line ! 0), strip (field_vector raw_line ! 2),
                      strip (field_vector raw_line ! 3), city_of (location_candidate raw_line))))"
  using parse_line_sufficient [of raw_line] parse_line_insufficient [of raw_line]
  by (simp add: insufficient_def)

lemma city_of_eq:
  "city_of c =
     (if c = [] then []
      else if CHR '','' \<in> set c then
        (if comma_segments c = [] then []
         else last (comma_segments c) @ '': '' @ hd (comma_segments c))
      else c)"
  by (simp add: city_of_def format_city_eq)

lemma parse_rows_ok:
  "snd (parse_rows fp) = None
   \<and> length (fst (parse_rows fp)) + length (filter insufficient fp) = length fp"
  by (induction fp) (simp_all add: parse_line_cases split_beta)

lemma parse_rows_skip:
  "insufficient raw_line \<Longrightarrow> parse_rows (raw_line # fp) = parse_rows fp"
  by (simp add: parse_line_cases)

lemma process_txt_eq: "process_txt fp = (process_rows (fst (parse_rows fp)), None)"
  using parse_rows_ok [of fp] by (simp add: process_txt_def split_beta)

lemma driver_loop_rows:
  "concat (map snd (written (flush_remainder (driver_loop rows st))))
     = concat (map snd (written st)) @ buffer st @ rows"
proof (induction rows arbitrary: st)
  case Nil
  show ?case by (simp add: flush_remainder_def write_chunk_def)
next
  case (Cons r rows)
  show ?case
    unfolding driver_loop.simps Cons.IH
    by (simp add: driver_step_def write_chunk_def Let_def)
qed

lemma process_rows_rows: "concat (map snd (written (process_rows rows))) = rows"
  using driver_loop_rows [of rows initial_state]
  by (simp add: process_rows_def initial_state_def)

lemma location_candidate_no_slash: "CHR ''/'' \<notin> set (scan_location toks)"
  by (induction toks) (simp_all add: Let_def)


lemma driver_step_inv:
  assumes "driver_inv st"
  shows "driver_inv (driver_step r st)"
proof (cases "length (buffer st @ [r]) = CHUNK_LIMIT")
  case True
  then have st': "buffer (driver_step r st) = []" "part_no (driver_step r st) = Suc (part_no st)"
    "written (driver_step r st) = written st @ [(part_no st, buffer st @ [r])]"
    by (simp_all add: driver_step_def write_chunk_def Let_def)
  from assms have "map fst (written st) = [1..<part_no st]" and "1 \<le> part_no st"
    and "\<forall>rs \<in> set (map snd (written st)). length rs = CHUNK_LIMIT"
    by (simp_all add: driver_inv_def)
  then show ?thesis
    using True CHUNK_LIMIT_pos unfolding driver_inv_def st' by auto
next
  case False
  then have st': "buffer (driver_step r st) = buffer st @ [r]"
    "part_no (driver_step r st) = part_no st" "written (driver_step r st) = written st"
    by (simp_all add: driver_step_def Let_def)
  from assms False show ?thesis
    unfolding driver_inv_def st' by auto
qed

lemma driver_loop_inv: "driver_inv st \<Longrightarrow> driver_inv (driver_loop rows st)"
  by (induction rows arbitrary: st) (simp_all add: driver_step_inv)

lemma initial_state_inv: "driver_inv initial_state"
  using CHUNK_LIMIT_pos by (simp add: driver_inv_def initial_state_def)

lemma flush_remainder_numbering:
  assumes "driver_inv st"
  shows "map fst (written (flush_remainder st)) = [1..<Suc (length (written (flush_remainder st)))]"
proof -
  from assms have m: "map fst (written st) = [1..<part_no st]" and p: "1 \<le> part_no st"
    by (simp_all add: driver_inv_def)
  from m have "length (written st) = part_no st - 1"
    by (metis length_map length_upt)
  with p have l: "Suc (length (written st)) = part_no st" by simp
  show ?thesis
  proof (cases "buffer st = []")
    case True
    then show ?thesis using m l by (simp add: flush_remainder_def)
  next
    case False
    then show ?thesis using m l p by (simp add: flush_remainder_def write_chunk_def)
  qed
qed

lemma flush_remainder_sizes:
  assumes "driver_inv st" and "i < length (written (flush_remainder st))"
  shows "length (snd (written (flush_remainder st) ! i)) \<le> CHUNK_LIMIT
       \<and> (Suc i < length (written (flush_remainder st))
            \<longrightarrow> length (snd (written (flush_remainder st) ! i)) = CHUNK_LIMIT)"
proof -
  from assms(1) have b: "length (buffer st) < CHUNK_LIMIT"
    and f: "\<forall>rs \<in> set (map snd (written st)). length rs = CHUNK_LIMIT"
    by (simp_all add: driver_inv_def)
  have old: "length (snd (written st ! i)) = CHUNK_LIMIT" if "i < length (written st)"
    using f that by (simp add: all_set_conv_all_nth)
  show ?thesis
  proof (cases "buffer st = []")
    case True
    then show ?thesis using assms(2) old by (simp add: flush_remainder_def)
  next
    case False
    then have w: "written (flush_remainder st) = written st @ [(part_no st, buffer st)]"
      by (simp add: flush_remainder_def write_chunk_def)
    show ?thesis
    proof (cases "i < length (written st)")
      case True
      then show ?thesis using old by (simp add: w nth_append)
    next
      case False
      with assms(2) have "i = length (written st)" by (simp add: w)
      then show ?thesis using b by (simp add: w)
    qed
  qed
qed

section \<open>The main block: which input, which status\<close>

lemma determine_input_no_arg:
  "length (argv env) \<noteq> 2 \<Longrightarrow>
   determine_input env =
     (case cwd_glob_txt env of
        [p] \<Rightarrow> ([chosen_line (path_name env p)], Inr p)
      | _ \<Rightarrow> (usage_lines, Inl 1))"
  by (cases "cwd_glob_txt env" rule: list.exhaust; cases "tl (cwd_glob_txt env)")
     (auto simp: determine_input_def py_get_def chosen_line_def usage_lines_def Let_def)

lemma determine_input_arg:
  "argv env = [script, a] \<Longrightarrow> determine_input env = ([], Inr (Path env a))"
  by (simp add: determine_input_def py_get_def)

lemma main_with_path:
  "determine_input env = (out, Inr p) \<Longrightarrow>
   main env =
     (if is_file env p
      then \<lparr>stdout = out, stderr = [], exit_status = 0,
            workbooks = written (process_rows (fst (parse_rows (open_lines env p))))\<rparr>
      else \<lparr>stdout = out, stderr = [''File not found: '' @ path_str env p],
            exit_status = 1, workbooks = []\<rparr>)"
  by (simp add: main_def process_txt_eq)

section \<open>The claims\<close>

text \<open>
  C1. For a line that yields a record: when the location candidate contains a comma and
  has at least one trimmed non-empty comma segment, the City field is the last segment,
  then \<open>": "\<close>, then the first segment; when the candidate contains no comma, the City
  field is the candidate itself. The candidates \<open>Springfield, USA\<close> and
  \<open>Springfield, Oregon, USA\<close> give \<open>USA: Springfield\<close>, and \<open>Springfield\<close> gives
  \<open>Springfield\<close>.
\<close>

theorem city_field_country_city:
  assumes "parse_line raw_line = Inr (Some (phone, first_name, last_name, city))"
  shows "(CHR '','' \<in> set (location_candidate raw_line)
            \<and> comma_segments (location_candidate raw_line) \<noteq> []
          \<longrightarrow> city = last (comma_segments (location_candidate raw_line)) @ '': ''
                       @ hd (comma_segments (location_candidate raw_line)))
       \<and> (CHR '','' \<notin> set (location_candidate raw_line)
          \<longrightarrow> city = location_candidate raw_line)
       \<and> format_city ''Springfield, USA'' = Inr ''USA: Springfield''
       \<and> format_city ''Springfield, Oregon, USA'' = Inr ''USA: Springfield''
       \<and> format_city ''Springfield'' = Inr ''Springfield''"
proof -
  from assms have "city = city_of (location_candidate raw_line)"
    by (simp add: parse_line_cases split: if_splits)
  then have general:
    "(CHR '','' \<in> set (location_candidate raw_line)
        \<and> comma_segments (location_candidate raw_line) \<noteq> []
      \<longrightarrow> city = last (comma_segments (location_candidate raw_line)) @ '': ''
                   @ hd (comma_segments (location_candidate raw_line)))
     \<and> (CHR '','' \<notin> set (location_candidate raw_line)
      \<longrightarrow> city = location_candidate raw_line)"
    by (auto simp: city_of_eq)
  have e1: "format_city ''Springfield, USA'' = Inr ''USA: Springfield''"
    by code_simp
  have e2: "format_city ''Springfield, Oregon, USA'' = Inr ''USA: Springfield''"
    by code_simp
  have e3: "format_city ''Springfield'' = Inr ''Springfield''"
    by code_simp
  from general e1 e2 e3 show ?thesis by blast
qed

theorem city_field_country_city_witness:
  "parse_line ''555 1234:id9:Bob:Smith:x:male:09/01/1971: Springfield, Oregon, USA :more''
     = Inr (Some (''555 1234'', ''Bob'', ''Smith'', ''USA: Springfield''))
   \<and> ''USA: Springfield''
     = last (comma_segments (location_candidate
          ''555 1234:id9:Bob:Smith:x:male:09/01/1971: Springfield, Oregon, USA :more'')) @ '': ''
       @ hd (comma_segments (location_candidate
          ''555 1234:id9:Bob:Smith:x:male:09/01/1971: Springfield, Oregon, USA :more''))
   \<and> parse_line ''555:7:Ann:Lee:x:Female:Springfield''
     = Inr (Some (''555'', ''Ann'', ''Lee'', ''Springfield''))
   \<and> ''Springfield'' = location_candidate ''555:7:Ann:Lee:x:Female:Springfield''"
proof -
  let ?a = "''555 1234:id9:Bob:Smith:x:male:09/01/1971: Springfield, Oregon, USA :more''"
  let ?b = "''555:7:Ann:Lee:x:Female:Springfield''"
  have pa: "parse_line ?a = Inr (Some (''555 1234'', ''Bob'', ''Smith'', ''USA: Springfield''))"
    by code_simp
  have ca: "CHR '','' \<in> set (location_candidate ?a)"
    by code_simp
  have sa: "comma_segments (location_candidate ?a) \<noteq> []"
    by code_simp
  have pb: "parse_line ?b = Inr (Some (''555'', ''Ann'', ''Lee'', ''Springfield''))"
    by code_simp
  have cb: "CHR '','' \<notin> set (location_candidate ?b)"
    by code_simp
  from city_field_country_city [OF pa] ca sa
  have "''USA: Springfield'' = last (comma_segments (location_candidate ?a)) @ '': ''
          @ hd (comma_segments (location_candidate ?a))"
    by blast
  moreover from city_field_country_city [OF pb] cb
  have "''Springfield'' = location_candidate ?b"
    by blast
  ultimately show ?thesis using pa pb by blast
qed

text \<open>
  C2. The location candidate is the first field at or after the city-search-start index
  (5) whose trimmed value is non-empty, is no case-insensitive member of the skip-token
  set, contains no slash and is not made of digits and hyphens only; it is that trimmed
  value, later fields are not looked at, and it is empty when no field qualifies. The
  source tests the four exclusions in the order blank, known token, date-like,
  numeric-like. A field that is \<open>Single\<close> in any letter case is skipped, and the scan
  goes on with the fields after it.
\<close>

theorem location_candidate_first_qualifying:
  "location_candidate raw_line
     = (case find qualifies (map strip (drop CITY_COL (field_vector raw_line))) of
          None \<Rightarrow> [] | Some v \<Rightarrow> v)
   \<and> (lower (strip f) = ''single'' \<longrightarrow> scan_location (f # rest) = scan_location rest)
   \<and> scan_location ['' '', ''SiNgLe'', ''12/25'', ''555-0100'', '' Paris '', ''Rome'']
       = ''Paris''"
proof -
  have a: "location_candidate raw_line
     = (case find qualifies (map strip (drop CITY_COL (field_vector raw_line))) of
          None \<Rightarrow> [] | Some v \<Rightarrow> v)"
    by (simp add: location_candidate_def scan_location_find CITY_COL_def)
  have b: "lower (strip f) = ''single'' \<longrightarrow> scan_location (f # rest) = scan_location rest"
    using scan_location_single [of f rest] by blast
  have c: "scan_location ['' '', ''SiNgLe'', ''12/25'', ''555-0100'', '' Paris '', ''Rome'']
       = ''Paris''"
    by code_simp
  from a b c show ?thesis by blast
qed

theorem location_candidate_first_qualifying_witness:
  "lower (strip '' SINGLE '') = ''single''
   \<and> scan_location ['' SINGLE '', ''Oslo, Norway''] = scan_location [''Oslo, Norway'']
   \<and> location_candidate ''1:2:Bob:Smith:x:single:09/01/1971:Oslo, Norway:Rome''
       = ''Oslo, Norway''"
proof -
  have h: "lower (strip '' SINGLE '') = ''single''"
    by code_simp
  have "find qualifies (map strip (drop CITY_COL
          (field_vector ''1:2:Bob:Smith:x:single:09/01/1971:Oslo, Norway:Rome'')))
        = Some ''Oslo, Norway''"
    by code_simp
  with location_candidate_first_qualifying
         [of "''1:2:Bob:Smith:x:single:09/01/1971:Oslo, Norway:Rome''"
             "'' SINGLE ''" "[''Oslo, Norway'']"] h
  show ?thesis by simp
qed

text \<open>
  C3. The repair (the first two runs of whitespace of the line replaced by the
  delimiter, then a new split) runs exactly when the naive split has too few fields to
  cover the largest required column index. It runs once, on the line itself, and adds at
  most two fields. A split that is already sufficient is kept as it is, so that its
  fields joined by the delimiter are the line, whitespace included.
\<close>

theorem repair_iff_naive_split_insufficient:
  "fst (split_with_repair line) = (length (split_sep COL_SEP line) \<le> max_col)
   \<and> (max_col < length (split_sep COL_SEP line)
        \<longrightarrow> snd (split_with_repair line) = split_sep COL_SEP line
          \<and> join_sep COL_SEP (snd (split_with_repair line)) = line)
   \<and> (length (split_sep COL_SEP line) \<le> max_col
        \<longrightarrow> snd (split_with_repair line) = split_sep COL_SEP (re_sub_ws [COL_SEP] 2 line)
          \<and> length (snd (split_with_repair line)) \<le> length (split_sep COL_SEP line) + 2)
   \<and> split_with_repair ''a  b :x  y:z:w:v:u''
        = (False, [''a  b '', ''x  y'', ''z'', ''w'', ''v'', ''u''])"
proof -
  have a: "fst (split_with_repair line) = (length (split_sep COL_SEP line) \<le> max_col)"
    by (simp add: split_with_repair_def Let_def)
  have b: "max_col < length (split_sep COL_SEP line)
        \<longrightarrow> snd (split_with_repair line) = split_sep COL_SEP line
          \<and> join_sep COL_SEP (snd (split_with_repair line)) = line"
    by (simp add: split_with_repair_def Let_def join_split)
  have c: "length (split_sep COL_SEP line) \<le> max_col
        \<longrightarrow> snd (split_with_repair line) = split_sep COL_SEP (re_sub_ws [COL_SEP] 2 line)
          \<and> length (snd (split_with_repair line)) \<le> length (split_sep COL_SEP line) + 2"
    using repair_adds_at_most_two [of line]
    by (simp add: split_with_repair_def Let_def)
  have d: "split_with_repair ''a  b :x  y:z:w:v:u''
        = (False, [''a  b '', ''x  y'', ''z'', ''w'', ''v'', ''u''])"
    by code_simp
  from a b c d show ?thesis by blast
qed

theorem repair_iff_naive_split_insufficient_witness:
  "max_col < length (split_sep COL_SEP ''1 2:3:Al  Bo:Cy:x:y'')
   \<and> snd (split_with_repair ''1 2:3:Al  Bo:Cy:x:y'') = [''1 2'', ''3'', ''Al  Bo'', ''Cy'', ''x'', ''y'']
   \<and> length (split_sep COL_SEP ''1  2 Al:Bo:x:y z'') \<le> max_col
   \<and> fst (split_with_repair ''1  2 Al:Bo:x:y z'')
   \<and> snd (split_with_repair ''1  2 Al:Bo:x:y z'') = [''1'', ''2'', ''Al'', ''Bo'', ''x'', ''y z'']"
proof -
  have s: "max_col < length (split_sep COL_SEP ''1 2:3:Al  Bo:Cy:x:y'')"
    by code_simp
  have sv: "split_sep COL_SEP ''1 2:3:Al  Bo:Cy:x:y'' = [''1 2'', ''3'', ''Al  Bo'', ''Cy'', ''x'', ''y'']"
    by code_simp
  have i: "length (split_sep COL_SEP ''1  2 Al:Bo:x:y z'') \<le> max_col"
    by code_simp
  have iv: "split_sep COL_SEP (re_sub_ws [COL_SEP] 2 ''1  2 Al:Bo:x:y z'')
              = [''1'', ''2'', ''Al'', ''Bo'', ''x'', ''y z'']"
    by code_simp
  from repair_iff_naive_split_insufficient [of "''1 2:3:Al  Bo:Cy:x:y''"] s sv
  have 1: "snd (split_with_repair ''1 2:3:Al  Bo:Cy:x:y'')
             = [''1 2'', ''3'', ''Al  Bo'', ''Cy'', ''x'', ''y'']"
    by metis
  from repair_iff_naive_split_insufficient [of "''1  2 Al:Bo:x:y z''"] i iv
  have 2: "fst (split_with_repair ''1  2 Al:Bo:x:y z'')
           \<and> snd (split_with_repair ''1  2 Al:Bo:x:y z'') = [''1'', ''2'', ''Al'', ''Bo'', ''x'', ''y z'']"
    by metis
  from s i 1 2 show ?thesis by blast
qed

text \<open>
  C4. A line whose field vector, after the one repair attempt, still has too few fields
  yields no record and raises nothing, and the generator goes on with the next line. Over
  a whole file no exception is raised, the number of records yielded is the number of
  lines minus the number of such lines, and so is the number of rows in the workbooks
  the driver writes.
\<close>

theorem insufficient_lines_skipped:
  "(insufficient raw_line \<longrightarrow>
       parse_line raw_line = Inr None \<and> parse_rows (raw_line # fp) = parse_rows fp)
   \<and> snd (parse_rows fp) = None
   \<and> length (fst (parse_rows fp)) = length fp - length (filter insufficient fp)
   \<and> snd (process_txt fp) = None
   \<and> length (concat (map snd (written (fst (process_txt fp)))))
       = length fp - length (filter insufficient fp)"
proof -
  have a: "insufficient raw_line \<longrightarrow>
       parse_line raw_line = Inr None \<and> parse_rows (raw_line # fp) = parse_rows fp"
    by (simp add: parse_line_cases)
  have b: "snd (parse_rows fp) = None"
    by (simp add: parse_rows_ok)
  have c: "length (fst (parse_rows fp)) = length fp - length (filter insufficient fp)"
    using parse_rows_ok [of fp] by arith
  have d: "snd (process_txt fp) = None"
    by (simp add: process_txt_eq)
  have e: "length (concat (map snd (written (fst (process_txt fp)))))
       = length fp - length (filter insufficient fp)"
    by (simp only: process_txt_eq fst_conv process_rows_rows c)
  from a b c d e show ?thesis by blast
qed

theorem insufficient_lines_skipped_witness:
  "insufficient ''a:b:c''
   \<and> parse_line ''a:b:c'' = Inr None
   \<and> parse_rows [''a:b:c'', ''1:2:Al:Bo:x:Rome''] = parse_rows [''1:2:Al:Bo:x:Rome'']
   \<and> length (fst (parse_rows [''a:b:c'', ''1:2:Al:Bo:x:Rome''])) = 1"
proof -
  have h: "insufficient ''a:b:c''"
    by code_simp
  have n: "length [''a:b:c'', ''1:2:Al:Bo:x:Rome'']
             - length (filter insufficient [''a:b:c'', ''1:2:Al:Bo:x:Rome'']) = 1"
    by code_simp
  from insufficient_lines_skipped [of "''a:b:c''" "[''1:2:Al:Bo:x:Rome'']"] h
  have 1: "parse_line ''a:b:c'' = Inr None
     \<and> parse_rows [''a:b:c'', ''1:2:Al:Bo:x:Rome''] = parse_rows [''1:2:Al:Bo:x:Rome'']"
    by blast
  from insufficient_lines_skipped [of "''a:b:c''" "[''a:b:c'', ''1:2:Al:Bo:x:Rome'']"] n
  have 2: "length (fst (parse_rows [''a:b:c'', ''1:2:Al:Bo:x:Rome''])) = 1"
    by metis
  from h 1 2 show ?thesis by blast
qed

text \<open>
  C5. For \<open>Q\<close> qualifying records and the row limit \<open>L = 1,000,000\<close> the driver writes
  \<open>ceil(Q / L)\<close> workbooks: workbook \<open>i\<close> (from 1) carries part number \<open>i\<close> and holds the
  next \<open>L\<close> rows, the last one the rest, in the order written. With \<open>Q = 2,500,000\<close>
  these are three workbooks of 1,000,000, 1,000,000 and 500,000 rows with part numbers
  1, 2 and 3; with \<open>Q = 0\<close> no workbook is written and the run ends without an error.
\<close>

theorem workbooks_ceil_of_rows:
  "written (process_rows rows)
     = map (\<lambda>i. (1 + i, take CHUNK_LIMIT (drop (i * CHUNK_LIMIT) rows)))
           [0..<(length rows + CHUNK_LIMIT - 1) div CHUNK_LIMIT]
   \<and> length (written (process_rows rows)) = (length rows + CHUNK_LIMIT - 1) div CHUNK_LIMIT
   \<and> CHUNK_LIMIT = 1000000
   \<and> (length rows = 2500000 \<longrightarrow>
        map (\<lambda>(p, rs). (p, length rs)) (written (process_rows rows))
          = [(1, 1000000), (2, 1000000), (3, 500000)])
   \<and> written (process_rows []) = []
   \<and> process_txt fp = (process_rows (fst (parse_rows fp)), None)"
proof -
  have a: "written (process_rows rows)
     = map (\<lambda>i. (1 + i, take CHUNK_LIMIT (drop (i * CHUNK_LIMIT) rows)))
           [0..<(length rows + CHUNK_LIMIT - 1) div CHUNK_LIMIT]"
    by (simp only: process_rows_written chunks_from_def)
  have b: "length (written (process_rows rows)) = (length rows + CHUNK_LIMIT - 1) div CHUNK_LIMIT"
    by (simp add: process_rows_written chunks_from_def)
  have c: "CHUNK_LIMIT = 1000000"
    by (simp add: CHUNK_LIMIT_def)
  have d: "map (\<lambda>(p, rs). (p, length rs)) (written (process_rows rows))
          = [(1, 1000000), (2, 1000000), (3, 500000)]" if len: "length rows = 2500000"
  proof -
    have "(length rows + CHUNK_LIMIT - 1) div CHUNK_LIMIT = 3"
      by (simp add: len CHUNK_LIMIT_def)
    moreover have "[0..<3] = [0, 1, 2]"
      by (simp add: upt_rec)
    ultimately show ?thesis
      by (simp add: process_rows_written chunks_from_def len) (simp add: CHUNK_LIMIT_def)
  qed
  have e: "written (process_rows []) = []"
    by (simp add: process_rows_written chunks_from_Nil)
  have f: "process_txt fp = (process_rows (fst (parse_rows fp)), None)"
    by (rule process_txt_eq)
  from a b c d e f show ?thesis by blast
qed

theorem workbooks_ceil_of_rows_witness:
  "length (replicate 2500000 (''555'', ''Bob'', ''Smith'', ''USA: Springfield'')) = 2500000
   \<and> map (\<lambda>(p, rs). (p, length rs))
        (written (process_rows (replicate 2500000 (''555'', ''Bob'', ''Smith'', ''USA: Springfield''))))
      = [(1, 1000000), (2, 1000000), (3, 500000)]"
proof -
  have h: "length (replicate 2500000 (''555'', ''Bob'', ''Smith'', ''USA: Springfield'')) = 2500000"
    by (rule length_replicate)
  from workbooks_ceil_of_rows
         [of "replicate 2500000 (''555'', ''Bob'', ''Smith'', ''USA: Springfield'')" "[]"] h
  show ?thesis by blast
qed

text \<open>
  C6. The loop of the driver keeps its invariants at every step. A record handed to the
  batch is the 4-tuple (Phone, FirstName, LastName, City) taken from columns 0, 2 and 3
  and from the location. The batch holds fewer rows than the limit between two
  iterations and never more than the limit inside one; every workbook written holds at
  most the limit, and all but the last hold exactly the limit. Part numbers follow the
  order of the writes: 1, 2, 3 and so on, without gap or reuse.
\<close>

theorem driver_loop_invariants:
  "driver_inv initial_state
   \<and> (driver_inv st \<longrightarrow>
        driver_inv (driver_step r st) \<and> length (buffer st @ [r]) \<le> CHUNK_LIMIT)
   \<and> driver_inv (driver_loop rows initial_state)
   \<and> map fst (written (process_rows rows)) = [1..<Suc (length (written (process_rows rows)))]
   \<and> (\<forall>i < length (written (process_rows rows)).
         length (snd (written (process_rows rows) ! i)) \<le> CHUNK_LIMIT
         \<and> (Suc i < length (written (process_rows rows))
              \<longrightarrow> length (snd (written (process_rows rows) ! i)) = CHUNK_LIMIT))
   \<and> (\<not> insufficient raw_line \<longrightarrow>
        parse_line raw_line
          = Inr (Some (strip (field_vector raw_line ! PHONE_COL),
                       strip (field_vector raw_line ! FIRST_COL),
                       strip (field_vector raw_line ! LAST_COL),
                       city_of (location_candidate raw_line))))"
proof -
  have a: "driver_inv initial_state"
    by (rule initial_state_inv)
  have "driver_inv st \<longrightarrow> length (buffer st @ [r]) \<le> CHUNK_LIMIT"
    by (simp add: driver_inv_def)
  then have b: "driver_inv st \<longrightarrow>
        driver_inv (driver_step r st) \<and> length (buffer st @ [r]) \<le> CHUNK_LIMIT"
    using driver_step_inv [of st r] by blast
  have c: "driver_inv (driver_loop rows initial_state)"
    by (simp add: driver_loop_inv initial_state_inv)
  have d: "map fst (written (process_rows rows)) = [1..<Suc (length (written (process_rows rows)))]"
    unfolding process_rows_def by (rule flush_remainder_numbering [OF c])
  have e: "\<forall>i < length (written (process_rows rows)).
         length (snd (written (process_rows rows) ! i)) \<le> CHUNK_LIMIT
         \<and> (Suc i < length (written (process_rows rows))
              \<longrightarrow> length (snd (written (process_rows rows) ! i)) = CHUNK_LIMIT)"
    unfolding process_rows_def using flush_remainder_sizes [OF c] by blast
  have f: "\<not> insufficient raw_line \<longrightarrow>
        parse_line raw_line
          = Inr (Some (strip (field_vector raw_line ! PHONE_COL),
                       strip (field_vector raw_line ! FIRST_COL),
                       strip (field_vector raw_line ! LAST_COL),
                       city_of (location_candidate raw_line)))"
    by (simp add: parse_line_cases PHONE_COL_def FIRST_COL_def LAST_COL_def)
  from a b c d e f show ?thesis by blast
qed

theorem driver_loop_invariants_witness:
  "driver_inv initial_state
   \<and> driver_inv (driver_step (''555'', ''Bob'', ''Smith'', ''Rome'') initial_state)
   \<and> buffer (driver_step (''555'', ''Bob'', ''Smith'', ''Rome'') initial_state)
        = [(''555'', ''Bob'', ''Smith'', ''Rome'')]
   \<and> written (process_rows [(''555'', ''Bob'', ''Smith'', ''Rome'')])
        = [(1, [(''555'', ''Bob'', ''Smith'', ''Rome'')])]
   \<and> length (snd (written (process_rows [(''555'', ''Bob'', ''Smith'', ''Rome'')]) ! 0)) \<le> CHUNK_LIMIT
   \<and> \<not> insufficient ''555:7:Bob:Smith:x:Rome''
   \<and> parse_line ''555:7:Bob:Smith:x:Rome'' = Inr (Some (''555'', ''Bob'', ''Smith'', ''Rome''))"
proof -
  let ?r = "(''555'', ''Bob'', ''Smith'', ''Rome'')"
  note t = driver_loop_invariants [of initial_state ?r "[?r]" "''555:7:Bob:Smith:x:Rome''"]
  have a: "driver_inv initial_state" using t by blast
  then have b: "driver_inv (driver_step ?r initial_state)" using t by blast
  have c: "buffer (driver_step ?r initial_state) = [?r]"
    by (simp add: driver_step_def initial_state_def CHUNK_LIMIT_def Let_def)
  have d: "written (process_rows [?r]) = [(1, [?r])]"
    by (simp add: process_rows_def flush_remainder_def write_chunk_def c
          driver_step_def initial_state_def CHUNK_LIMIT_def Let_def)
  have "0 < length (written (process_rows [?r]))" by (simp add: d)
  then have e: "length (snd (written (process_rows [?r]) ! 0)) \<le> CHUNK_LIMIT"
    using t by blast
  have f: "\<not> insufficient ''555:7:Bob:Smith:x:Rome''"
    by code_simp
  have v: "strip (field_vector ''555:7:Bob:Smith:x:Rome'' ! PHONE_COL) = ''555''"
    "strip (field_vector ''555:7:Bob:Smith:x:Rome'' ! FIRST_COL) = ''Bob''"
    "strip (field_vector ''555:7:Bob:Smith:x:Rome'' ! LAST_COL) = ''Smith''"
    "city_of (location_candidate ''555:7:Bob:Smith:x:Rome'') = ''Rome''"
    by code_simp+
  from t f have g: "parse_line ''555:7:Bob:Smith:x:Rome'' = Inr (Some ?r)"
    unfolding v by blast
  from a b c d e f g show ?thesis by blast
qed

text \<open>
  C7. When the location candidate of a record contains a comma and has exactly one
  trimmed non-empty comma segment, the City field is that segment, then \<open>": "\<close>, then
  that segment again: the candidate \<open>USA,\<close> gives \<open>USA: USA\<close>.
\<close>

theorem single_segment_twice:
  assumes "parse_line raw_line = Inr (Some (phone, first_name, last_name, city))"
    and "CHR '','' \<in> set (location_candidate raw_line)"
    and "comma_segments (location_candidate raw_line) = [seg]"
  shows "city = seg @ '': '' @ seg \<and> format_city ''USA,'' = Inr ''USA: USA''"
proof -
  from assms(1) have "city = city_of (location_candidate raw_line)"
    by (simp add: parse_line_cases split: if_splits)
  with assms(2,3) have "city = seg @ '': '' @ seg"
    by (auto simp: city_of_eq)
  moreover have "format_city ''USA,'' = Inr ''USA: USA''"
    by code_simp
  ultimately show ?thesis by blast
qed

theorem single_segment_twice_witness:
  "parse_line ''555 1234 Bob:Smith:x:Single:USA,''
     = Inr (Some (''555'', ''Bob'', ''Smith'', ''USA: USA''))
   \<and> CHR '','' \<in> set (location_candidate ''555 1234 Bob:Smith:x:Single:USA,'')
   \<and> comma_segments (location_candidate ''555 1234 Bob:Smith:x:Single:USA,'') = [''USA'']
   \<and> ''USA: USA'' = ''USA'' @ '': '' @ ''USA''"
proof -
  let ?l = "''555 1234 Bob:Smith:x:Single:USA,''"
  have p: "parse_line ?l = Inr (Some (''555'', ''Bob'', ''Smith'', ''USA: USA''))"
    by code_simp
  have c: "CHR '','' \<in> set (location_candidate ?l)"
    by code_simp
  have s: "comma_segments (location_candidate ?l) = [''USA'']"
    by code_simp
  from single_segment_twice [OF p c s] p c s show ?thesis by blast
qed

text \<open>
  C8. A sufficient line in which no field from index 5 on passes the four exclusions
  still yields a record, and its City field is empty. The location candidate never
  contains a slash, so a date-like field such as \<open>09/01/1971\<close> is not chosen, also when
  it is the only field there.
\<close>

theorem no_candidate_empty_city:
  "(\<not> insufficient raw_line
      \<and> (\<forall>f \<in> set (drop CITY_COL (field_vector raw_line)). \<not> qualifies (strip f))
     \<longrightarrow> parse_line raw_line
           = Inr (Some (strip (field_vector raw_line ! PHONE_COL),
                        strip (field_vector raw_line ! FIRST_COL),
                        strip (field_vector raw_line ! LAST_COL), [])))
   \<and> CHR ''/'' \<notin> set (location_candidate raw_line)
   \<and> parse_line ''555:7:Bob:Smith:x:09/01/1971''
        = Inr (Some (''555'', ''Bob'', ''Smith'', []))"
proof -
  have a: "parse_line raw_line
           = Inr (Some (strip (field_vector raw_line ! PHONE_COL),
                        strip (field_vector raw_line ! FIRST_COL),
                        strip (field_vector raw_line ! LAST_COL), []))"
    if suff: "\<not> insufficient raw_line"
    and none: "\<forall>f \<in> set (drop CITY_COL (field_vector raw_line)). \<not> qualifies (strip f)"
  proof -
    from none have "find qualifies (map strip (drop CITY_COL (field_vector raw_line))) = None"
      by (simp add: find_None_iff)
    then have "location_candidate raw_line = []"
      by (simp add: location_candidate_def scan_location_find CITY_COL_def)
    then show ?thesis using suff
      by (simp add: parse_line_cases city_of_eq PHONE_COL_def FIRST_COL_def LAST_COL_def)
  qed
  have b: "CHR ''/'' \<notin> set (location_candidate raw_line)"
    by (simp add: location_candidate_def location_candidate_no_slash)
  have c: "parse_line ''555:7:Bob:Smith:x:09/01/1971''
        = Inr (Some (''555'', ''Bob'', ''Smith'', []))"
    by code_simp
  from a b c show ?thesis by blast
qed

theorem no_candidate_empty_city_witness:
  "\<not> insufficient ''555:7:Bob:Smith:x:09/01/1971: male :555-0100''
   \<and> find qualifies (map strip
         (drop CITY_COL (field_vector ''555:7:Bob:Smith:x:09/01/1971: male :555-0100''))) = None
   \<and> parse_line ''555:7:Bob:Smith:x:09/01/1971: male :555-0100''
       = Inr (Some (''555'', ''Bob'', ''Smith'', []))"
proof -
  let ?l = "''555:7:Bob:Smith:x:09/01/1971: male :555-0100''"
  have s: "\<not> insufficient ?l"
    by code_simp
  have n: "\<forall>f \<in> set (drop CITY_COL (field_vector ?l)). \<not> qualifies (strip f)"
    by code_simp
  have v: "strip (field_vector ?l ! PHONE_COL) = ''555''"
    "strip (field_vector ?l ! FIRST_COL) = ''Bob''"
    "strip (field_vector ?l ! LAST_COL) = ''Smith''"
    by code_simp+
  from no_candidate_empty_city [of ?l] s n
  have "parse_line ?l = Inr (Some (''555'', ''Bob'', ''Smith'', []))"
    unfolding v by blast
  moreover from n have "find qualifies (map strip (drop CITY_COL (field_vector ?l))) = None"
    by (simp add: find_None_iff)
  ultimately show ?thesis using s by blast
qed

text \<open>
  C9. Started without a path argument, the program looks at the \<open>.txt\<close> files of the
  current directory. With exactly one, it prints its name and uses it; with none or
  several, it prints the usage lines and ends with a non-zero status. When the path,
  given or found, is not an existing file, the program ends with a non-zero status.
  When the file exists and is processed to the end, the status is 0.
\<close>

theorem main_exit_status:
  "(length (argv env) = 1 \<and> cwd_glob_txt env = [p] \<and> is_file env p \<longrightarrow>
       main env = \<lparr>stdout = [chosen_line (path_name env p)], stderr = [], exit_status = 0,
                   workbooks = written (process_rows (fst (parse_rows (open_lines env p))))\<rparr>)
   \<and> (length (argv env) = 1 \<and> length (cwd_glob_txt env) \<noteq> 1 \<longrightarrow>
       stdout (main env) = usage_lines \<and> exit_status (main env) \<noteq> 0
       \<and> workbooks (main env) = [])
   \<and> (length (argv env) = 1 \<and> cwd_glob_txt env = [p] \<and> \<not> is_file env p \<longrightarrow>
       exit_status (main env) \<noteq> 0 \<and> workbooks (main env) = [])
   \<and> (argv env = [script, a] \<and> \<not> is_file env (Path env a) \<longrightarrow>
       exit_status (main env) \<noteq> 0 \<and> workbooks (main env) = [])
   \<and> (argv env = [script, a] \<and> is_file env (Path env a) \<longrightarrow>
       exit_status (main env) = 0
       \<and> workbooks (main env)
           = written (process_rows (fst (parse_rows (open_lines env (Path env a))))))"
proof -
  have one: "determine_input env = ([chosen_line (path_name env p)], Inr p)"
    if "length (argv env) = 1" "cwd_glob_txt env = [p]"
    using that determine_input_no_arg [of env] by simp
  have a: "length (argv env) = 1 \<and> cwd_glob_txt env = [p] \<and> is_file env p \<longrightarrow>
       main env = \<lparr>stdout = [chosen_line (path_name env p)], stderr = [], exit_status = 0,
                   workbooks = written (process_rows (fst (parse_rows (open_lines env p))))\<rparr>"
    using one main_with_path [of env "[chosen_line (path_name env p)]" p] by simp
  have b: "stdout (main env) = usage_lines \<and> exit_status (main env) \<noteq> 0
       \<and> workbooks (main env) = []"
    if "length (argv env) = 1" "length (cwd_glob_txt env) \<noteq> 1"
  proof -
    from that have "determine_input env = (usage_lines, Inl 1)"
      using determine_input_no_arg [of env]
      by (cases "cwd_glob_txt env"; cases "tl (cwd_glob_txt env)") auto
    then show ?thesis by (simp add: main_def)
  qed
  have c: "length (argv env) = 1 \<and> cwd_glob_txt env = [p] \<and> \<not> is_file env p \<longrightarrow>
       exit_status (main env) \<noteq> 0 \<and> workbooks (main env) = []"
    using one main_with_path [of env "[chosen_line (path_name env p)]" p] by simp
  have d: "argv env = [script, a] \<and> \<not> is_file env (Path env a) \<longrightarrow>
       exit_status (main env) \<noteq> 0 \<and> workbooks (main env) = []"
    using determine_input_arg [of env script a] main_with_path [of env "[]" "Path env a"]
    by simp
  have e: "argv env = [script, a] \<and> is_file env (Path env a) \<longrightarrow>
       exit_status (main env) = 0
       \<and> workbooks (main env)
           = written (process_rows (fst (parse_rows (open_lines env (Path env a)))))"
    using determine_input_arg [of env script a] main_with_path [of env "[]" "Path env a"]
    by simp
  from a b c d e show ?thesis by blast
qed


theorem main_exit_status_witness:
  "main \<lparr>argv = [''txttoexel.py''], cwd_glob_txt = [''in.txt''], Path = (\<lambda>a. a),
          path_name = (\<lambda>p. p), path_str = (\<lambda>p. p), is_file = (\<lambda>p. p = ''in.txt''),
          open_lines = (\<lambda>p. [''555:7:Bob:Smith:x:Rome'', ''bad''])\<rparr>
     = \<lparr>stdout = [chosen_line ''in.txt''], stderr = [], exit_status = 0,
        workbooks = written (process_rows (fst (parse_rows [''555:7:Bob:Smith:x:Rome'', ''bad''])))\<rparr>
   \<and> stdout (main \<lparr>argv = [''txttoexel.py''], cwd_glob_txt = [''a.txt'', ''b.txt''],
          Path = (\<lambda>a. a), path_name = (\<lambda>p. p), path_str = (\<lambda>p. p),
          is_file = (\<lambda>p. True), open_lines = (\<lambda>p. [])\<rparr>) = usage_lines
   \<and> exit_status (main \<lparr>argv = [''txttoexel.py''], cwd_glob_txt = [''a.txt'', ''b.txt''],
          Path = (\<lambda>a. a), path_name = (\<lambda>p. p), path_str = (\<lambda>p. p),
          is_file = (\<lambda>p. True), open_lines = (\<lambda>p. [])\<rparr>) \<noteq> 0
   \<and> exit_status (main \<lparr>argv = [''txttoexel.py''], cwd_glob_txt = [''dir.txt''],
          Path = (\<lambda>a. a), path_name = (\<lambda>p. p), path_str = (\<lambda>p. p),
          is_file = (\<lambda>p. False), open_lines = (\<lambda>p. [])\<rparr>) \<noteq> 0
   \<and> exit_status (main \<lparr>argv = [''txttoexel.py'', ''gone.txt''], cwd_glob_txt = [],
          Path = (\<lambda>a. a), path_name = (\<lambda>p. p), path_str = (\<lambda>p. p),
          is_file = (\<lambda>p. False), open_lines = (\<lambda>p. [])\<rparr>) \<noteq> 0
   \<and> exit_status (main \<lparr>argv = [''txttoexel.py'', ''in.txt''], cwd_glob_txt = [],
          Path = (\<lambda>a. a), path_name = (\<lambda>p. p), path_str = (\<lambda>p. p),
          is_file = (\<lambda>p. p = ''in.txt''), open_lines = (\<lambda>p. [''bad''])\<rparr>) = 0"
proof -
  let ?e1 = "\<lparr>argv = [''txttoexel.py''], cwd_glob_txt = [''in.txt''], Path = (\<lambda>a. a),
          path_name = (\<lambda>p. p), path_str = (\<lambda>p. p), is_file = (\<lambda>p. p = ''in.txt''),
          open_lines = (\<lambda>p. [''555:7:Bob:Smith:x:Rome'', ''bad''])\<rparr>"
  let ?e2 = "\<lparr>argv = [''txttoexel.py''], cwd_glob_txt = [''a.txt'', ''b.txt''],
          Path = (\<lambda>a. a), path_name = (\<lambda>p. p), path_str = (\<lambda>p. p),
          is_file = (\<lambda>p. True), open_lines = (\<lambda>p. [])\<rparr>"
  let ?e3 = "\<lparr>argv = [''txttoexel.py''], cwd_glob_txt = [''dir.txt''],
          Path = (\<lambda>a. a), path_name = (\<lambda>p. p), path_str = (\<lambda>p. p),
          is_file = (\<lambda>p. False), open_lines = (\<lambda>p. [])\<rparr>"
  let ?e4 = "\<lparr>argv = [''txttoexel.py'', ''gone.txt''], cwd_glob_txt = [],
          Path = (\<lambda>a. a), path_name = (\<lambda>p. p), path_str = (\<lambda>p. p),
          is_file = (\<lambda>p. False), open_lines = (\<lambda>p. [])\<rparr>"
  let ?e5 = "\<lparr>argv = [''txttoexel.py'', ''in.txt''], cwd_glob_txt = [],
          Path = (\<lambda>a. a), path_name = (\<lambda>p. p), path_str = (\<lambda>p. p),
          is_file = (\<lambda>p. p = ''in.txt''), open_lines = (\<lambda>p. [''bad''])\<rparr>"
  have 1: "main ?e1 = \<lparr>stdout = [chosen_line ''in.txt''], stderr = [], exit_status = 0,
        workbooks = written (process_rows (fst (parse_rows [''555:7:Bob:Smith:x:Rome'', ''bad''])))\<rparr>"
    using main_exit_status [of ?e1 "''in.txt''"] by simp
  have 2: "stdout (main ?e2) = usage_lines \<and> exit_status (main ?e2) \<noteq> 0"
    using main_exit_status [of ?e2] by simp
  have 3: "exit_status (main ?e3) \<noteq> 0"
    using main_exit_status [of ?e3 "''dir.txt''"] by simp
  have 4: "exit_status (main ?e4) \<noteq> 0"
    using main_exit_status [of ?e4 _ "''txttoexel.py''" "''gone.txt''"] by simp
  have 5: "exit_status (main ?e5) = 0"
    using main_exit_status [of ?e5 _ "''txttoexel.py''" "''in.txt''"] by simp
  from 1 2 3 4 5 show ?thesis by blast
qed

text \<open>
  C10. \<open>parse_rows\<close> is a function of its input and raises on no line: every line either
  yields one 4-tuple of strings or is skipped, so a file never ends the generator with
  an exception. The fields at the phone, first-name and last-name positions are read
  only when the field vector, repaired or not, is longer than the largest required
  column index, and then each of these reads is inside the list; the two reads of the
  comma segments are inside their list as well.
\<close>

theorem parse_line_never_raises:
  "(parse_line raw_line = Inr None \<or> (\<exists>r. parse_line raw_line = Inr (Some r)))
   \<and> (\<forall>e. parse_line raw_line \<noteq> Inl e)
   \<and> snd (parse_rows fp) = None
   \<and> length (fst (parse_rows [raw_line])) \<le> 1
   \<and> (max_col < length (field_vector raw_line) \<longrightarrow>
        py_get (field_vector raw_line) (int PHONE_COL) = Inr (field_vector raw_line ! PHONE_COL)
        \<and> py_get (field_vector raw_line) (int FIRST_COL) = Inr (field_vector raw_line ! FIRST_COL)
        \<and> py_get (field_vector raw_line) (int LAST_COL) = Inr (field_vector raw_line ! LAST_COL))
   \<and> (\<exists>c. format_city (location_candidate raw_line) = Inr c)"
proof -
  have a: "parse_line raw_line = Inr None \<or> (\<exists>r. parse_line raw_line = Inr (Some r))"
    by (simp add: parse_line_cases)
  then have b: "\<forall>e. parse_line raw_line \<noteq> Inl e"
    by auto
  have c: "snd (parse_rows fp) = None"
    by (simp add: parse_rows_ok)
  have d: "length (fst (parse_rows [raw_line])) \<le> 1"
    by (simp add: parse_line_cases)
  have e: "max_col < length (field_vector raw_line) \<longrightarrow>
        py_get (field_vector raw_line) (int PHONE_COL) = Inr (field_vector raw_line ! PHONE_COL)
        \<and> py_get (field_vector raw_line) (int FIRST_COL) = Inr (field_vector raw_line ! FIRST_COL)
        \<and> py_get (field_vector raw_line) (int LAST_COL) = Inr (field_vector raw_line ! LAST_COL)"
    by (auto simp: max_col_5 py_get_def PHONE_COL_def FIRST_COL_def LAST_COL_def)
  have f: "\<exists>c. format_city (location_candidate raw_line) = Inr c"
    by (simp add: format_city_eq)
  from a b c d e f show ?thesis by blast
qed

theorem parse_line_never_raises_witness:
  "max_col < length (field_vector ''555 1234 Bob:Smith:x:Single:USA,'')
   \<and> py_get (field_vector ''555 1234 Bob:Smith:x:Single:USA,'') (int PHONE_COL) = Inr ''555''
   \<and> py_get (field_vector ''555 1234 Bob:Smith:x:Single:USA,'') (int FIRST_COL) = Inr ''Bob''
   \<and> py_get (field_vector ''555 1234 Bob:Smith:x:Single:USA,'') (int LAST_COL) = Inr ''Smith''
   \<and> parse_line ''a b'' = Inr None"
proof -
  let ?l = "''555 1234 Bob:Smith:x:Single:USA,''"
  have h: "max_col < length (field_vector ?l)"
    by code_simp
  have v: "field_vector ?l ! PHONE_COL = ''555''" "field_vector ?l ! FIRST_COL = ''Bob''"
    "field_vector ?l ! LAST_COL = ''Smith''"
    by code_simp+
  have n: "\<not> (\<exists>r. parse_line ''a b'' = Inr (Some r))"
    by (simp add: parse_line_cases) code_simp
  from parse_line_never_raises [of ?l "[]"] h
  have 1: "py_get (field_vector ?l) (int PHONE_COL) = Inr ''555''
     \<and> py_get (field_vector ?l) (int FIRST_COL) = Inr ''Bob''
     \<and> py_get (field_vector ?l) (int LAST_COL) = Inr ''Smith''"
    unfolding v by blast
  from parse_line_never_raises [of "''a b''" "[]"] n
  have 2: "parse_line ''a b'' = Inr None"
    by blast
  from h 1 2 show ?thesis by blast
qed

end
